theory Spec2Isabelle
  imports Main "HOL-Library.Stream"
begin

section \<open>The snake game: state-update engine of \<open>the_snake.py\<close>\<close>

text \<open>
  The embedding follows \<open>src/the_snake.py\<close>. Positions are pixel pairs \<open>(x, y)\<close> of
  Python integers, directions are the four module-level tuples, the two game objects are
  records, and every method that mutates its object takes the object and returns the
  updated one. Drawing, the display and the clock do not touch the fields modelled here
  and are left out.
\<close>

subsection \<open>Constants (lines 5--14)\<close>

type_synonym cell = "int \<times> int"
type_synonym direction = "int \<times> int"

definition SCREEN_WIDTH :: int where "SCREEN_WIDTH = 640"
definition SCREEN_HEIGHT :: int where "SCREEN_HEIGHT = 480"
definition GRID_SIZE :: int where "GRID_SIZE = 20"
definition GRID_WIDTH :: int where "GRID_WIDTH = SCREEN_WIDTH div GRID_SIZE"
definition GRID_HEIGHT :: int where "GRID_HEIGHT = SCREEN_HEIGHT div GRID_SIZE"

definition UP :: direction where "UP = (0, -1)"
definition DOWN :: direction where "DOWN = (0, 1)"
definition LEFT :: direction where "LEFT = (-1, 0)"
definition RIGHT :: direction where "RIGHT = (1, 0)"

subsection \<open>Exceptions and the random source\<close>

text \<open>
  \<open>IndexError\<close> is what \<open>self.positions[0]\<close> and \<open>choice\<close> raise on an empty sequence,
  \<open>ValueError\<close> what \<open>randint\<close> raises on an empty range, \<open>SystemExit\<close> what
  \<open>handle_keys\<close> raises on a quit event.
\<close>

datatype error = IndexError | ValueError | SystemExit

text \<open>
  The module \<open>random\<close> is not part of the repository. Its generator is taken as an
  injected source: an infinite stream of raw draws, one consumed by each call. \<open>randint a b\<close>
  maps the draw into the closed range \<open>a..b\<close>, \<open>choice xs\<close> into the indices of \<open>xs\<close>;
  every value of the range can come out and none outside it.
\<close>

type_synonym rng = "nat stream"

definition randint :: "int \<Rightarrow> int \<Rightarrow> rng \<Rightarrow> error + (int \<times> rng)" where
  "randint a b g =
     (if b < a then Inl ValueError
      else Inr (a + int (shd g mod nat (b - a + 1)), stl g))"

definition choice :: "'a list \<Rightarrow> rng \<Rightarrow> error + ('a \<times> rng)" where
  "choice xs g =
     (if xs = [] then Inl IndexError
      else Inr (xs ! (shd g mod length xs), stl g))"

subsection \<open>GameObject and Apple (lines 41--99)\<close>

text \<open>\<open>GameObject.__init__\<close> with \<open>position=None\<close>: the centre of the screen.\<close>

definition default_position :: cell where
  "default_position = (SCREEN_WIDTH div 2, SCREEN_HEIGHT div 2)"

record apple =
  position :: cell

definition randomize_position :: "apple \<Rightarrow> rng \<Rightarrow> error + (apple \<times> rng)" where
  "randomize_position a g =
     (case randint 0 (GRID_WIDTH - 1) g of
        Inl e \<Rightarrow> Inl e
      | Inr (c, g1) \<Rightarrow>
          (case randint 0 (GRID_HEIGHT - 1) g1 of
             Inl e \<Rightarrow> Inl e
           | Inr (r, g2) \<Rightarrow> Inr (a\<lparr>position := (c * GRID_SIZE, r * GRID_SIZE)\<rparr>, g2)))"

definition Apple :: "rng \<Rightarrow> error + (apple \<times> rng)" where
  "Apple g = randomize_position \<lparr>position = default_position\<rparr> g"

subsection \<open>Snake (lines 102--185)\<close>

text \<open>
  The fields \<open>length\<close> and \<open>last\<close> of the class are \<open>length_s\<close> and \<open>last_s\<close> here.
  \<open>next_direction\<close> and \<open>last\<close> are \<open>None\<close> or a tuple; a tuple of two elements is
  always true in a condition, so \<open>if self.next_direction\<close> tests for \<open>Some\<close>.
  The inherited \<open>position\<close> is read by the constructor alone (line 123) and \<open>body_color\<close>
  by drawing alone; neither is a field here.
\<close>

record snake =
  length_s :: int
  positions :: "cell list"
  direction :: direction
  next_direction :: "direction option"
  last_s :: "cell option"

definition Snake :: snake where
  "Snake = \<lparr>length_s = 1, positions = [default_position], direction = RIGHT,
            next_direction = None, last_s = None\<rparr>"

definition get_head_position :: "snake \<Rightarrow> error + cell" where
  "get_head_position s = (case positions s of [] \<Rightarrow> Inl IndexError | p # _ \<Rightarrow> Inr p)"

definition update_direction :: "snake \<Rightarrow> snake" where
  "update_direction s =
     (case next_direction s of
        None \<Rightarrow> s
      | Some d \<Rightarrow> s\<lparr>direction := d, next_direction := None\<rparr>)"

definition reset :: "snake \<Rightarrow> rng \<Rightarrow> error + (snake \<times> rng)" where
  "reset s g =
     (case choice [UP, DOWN, LEFT, RIGHT] g of
        Inl e \<Rightarrow> Inl e
      | Inr (d, g') \<Rightarrow>
          Inr (s\<lparr>length_s := 1,
                 positions := [(SCREEN_WIDTH div 2, SCREEN_HEIGHT div 2)],
                 last_s := None,
                 direction := d\<rparr>, g'))"

text \<open>The local \<open>new_pos\<close> of \<open>move\<close> (lines 158--161); Python's \<open>%\<close> is HOL's \<open>mod\<close> on \<open>int\<close>.\<close>

definition new_pos :: "cell \<Rightarrow> direction \<Rightarrow> cell" where
  "new_pos cur d =
     ((fst cur + fst d * GRID_SIZE) mod SCREEN_WIDTH,
      (snd cur + snd d * GRID_SIZE) mod SCREEN_HEIGHT)"

text \<open>Line 170: \<open>self.positions.insert(0, new_pos)\<close>.\<close>

definition insert_head :: "cell \<Rightarrow> snake \<Rightarrow> snake" where
  "insert_head p s = s\<lparr>positions := p # positions s\<rparr>"

text \<open>Lines 173--176: the tail is popped when the list is longer than \<open>length\<close>.\<close>

definition drop_tail :: "snake \<Rightarrow> snake" where
  "drop_tail s =
     (if int (length (positions s)) > length_s s
      then s\<lparr>last_s := Some (last (positions s)), positions := butlast (positions s)\<rparr>
      else s\<lparr>last_s := None\<rparr>)"

definition move :: "snake \<Rightarrow> rng \<Rightarrow> error + (snake \<times> rng)" where
  "move s g =
     (case get_head_position s of
        Inl e \<Rightarrow> Inl e
      | Inr cur \<Rightarrow>
          (let p = new_pos cur (direction s) in
           if p \<in> set (drop 2 (positions s)) then reset s g
           else Inr (drop_tail (insert_head p s), g)))"

text \<open>The test of line 165, as a predicate on a snake that has a head.\<close>

definition collides :: "snake \<Rightarrow> bool" where
  "collides s =
     (case positions s of
        [] \<Rightarrow> False
      | cur # _ \<Rightarrow> new_pos cur (direction s) \<in> set (drop 2 (positions s)))"

text \<open>Line 253, \<open>snake.length += 1\<close>: the \<open>grow()\<close> of the specification.\<close>

definition grow :: "snake \<Rightarrow> snake" where
  "grow s = s\<lparr>length_s := length_s s + 1\<rparr>"

subsection \<open>Input and the game loop (lines 209--254)\<close>

datatype key = K_UP | K_DOWN | K_LEFT | K_RIGHT | K_OTHER

datatype event = QUIT | KEYDOWN key | OTHER

text \<open>The \<open>if\<close>/\<open>elif\<close> chain of lines 222--229 for one key press.\<close>

definition handle_key :: "key \<Rightarrow> snake \<Rightarrow> snake" where
  "handle_key k s =
     (if k = K_UP \<and> direction s \<noteq> DOWN then s\<lparr>next_direction := Some UP\<rparr>
      else if k = K_DOWN \<and> direction s \<noteq> UP then s\<lparr>next_direction := Some DOWN\<rparr>
      else if k = K_LEFT \<and> direction s \<noteq> RIGHT then s\<lparr>next_direction := Some LEFT\<rparr>
      else if k = K_RIGHT \<and> direction s \<noteq> LEFT then s\<lparr>next_direction := Some RIGHT\<rparr>
      else s)"

fun handle_keys :: "event list \<Rightarrow> snake \<Rightarrow> error + snake" where
  "handle_keys [] s = Inr s"
| "handle_keys (QUIT # evs) s = Inl SystemExit"
| "handle_keys (KEYDOWN k # evs) s = handle_keys evs (handle_key k s)"
| "handle_keys (OTHER # evs) s = handle_keys evs s"

text \<open>
  What the specification calls \<open>advance()\<close>: the two calls of lines 247 and 249,
  \<open>snake.update_direction()\<close> and then \<open>snake.move()\<close>.
\<close>

definition advance :: "snake \<Rightarrow> rng \<Rightarrow> error + (snake \<times> rng)" where
  "advance s g = move (update_direction s) g"

record game =
  snake :: snake
  apple :: apple
  rng :: rng

text \<open>Lines 238--239: the two objects \<open>main\<close> builds before the loop.\<close>

definition init_game :: "rng \<Rightarrow> error + game" where
  "init_game g =
     (case Apple g of
        Inl e \<Rightarrow> Inl e
      | Inr (a, g') \<Rightarrow> Inr \<lparr>snake = Snake, apple = a, rng = g'\<rparr>)"

text \<open>Lines 252--254: the apple check that follows \<open>move\<close> in the loop body.\<close>

definition eat_check :: "snake \<Rightarrow> apple \<Rightarrow> rng \<Rightarrow> error + game" where
  "eat_check s a g =
     (case get_head_position s of
        Inl e \<Rightarrow> Inl e
      | Inr h \<Rightarrow>
          if h = position a
          then (case randomize_position a g of
                  Inl e \<Rightarrow> Inl e
                | Inr (a', g') \<Rightarrow>
                    Inr \<lparr>snake = grow s, apple = a', rng = g'\<rparr>)
          else Inr \<lparr>snake = s, apple = a, rng = g\<rparr>)"

text \<open>One pass of the \<open>while True\<close> body, for the events \<open>pygame.event.get()\<close> returns.\<close>

definition tick :: "event list \<Rightarrow> game \<Rightarrow> error + game" where
  "tick evs st =
     (case handle_keys evs (snake st) of
        Inl e \<Rightarrow> Inl e
      | Inr s1 \<Rightarrow>
          (case advance s1 (rng st) of
             Inl e \<Rightarrow> Inl e
           | Inr (s2, g) \<Rightarrow> eat_check s2 (apple st) g))"

text \<open>The loop, run for one list of events per pass.\<close>

fun run :: "event list list \<Rightarrow> game \<Rightarrow> error + game" where
  "run [] st = Inr st"
| "run (evs # rest) st = (case tick evs st of Inl e \<Rightarrow> Inl e | Inr st' \<Rightarrow> run rest st')"

definition play :: "rng \<Rightarrow> event list list \<Rightarrow> error + game" where
  "play g evss = (case init_game g of Inl e \<Rightarrow> Inl e | Inr st \<Rightarrow> run evss st)"

subsection \<open>Vocabulary of the properties\<close>

definition opposite :: "direction \<Rightarrow> direction" where
  "opposite d = (- fst d, - snd d)"

text \<open>The direction a key asks for in lines 222--229.\<close>

fun key_direction :: "key \<Rightarrow> direction option" where
  "key_direction K_UP = Some UP"
| "key_direction K_DOWN = Some DOWN"
| "key_direction K_LEFT = Some LEFT"
| "key_direction K_RIGHT = Some RIGHT"
| "key_direction K_OTHER = None"

text \<open>A position on the cell grid and inside the board.\<close>

definition on_grid :: "cell \<Rightarrow> bool" where
  "on_grid c \<longleftrightarrow>
     fst c mod GRID_SIZE = 0 \<and> 0 \<le> fst c \<and> fst c < SCREEN_WIDTH \<and>
     snd c mod GRID_SIZE = 0 \<and> 0 \<le> snd c \<and> snd c < SCREEN_HEIGHT"

text \<open>
  Any interleaving of the operations on the two objects: key handling, \<open>advance\<close>,
  \<open>grow\<close>, \<open>reset\<close> and the relocation of the apple, each on its own.
\<close>

datatype op = Keys "event list" | Advance | Grow | Reset | Relocate

fun apply_op :: "op \<Rightarrow> game \<Rightarrow> error + game" where
  "apply_op (Keys evs) st =
     (case handle_keys evs (snake st) of
        Inl e \<Rightarrow> Inl e
      | Inr s \<Rightarrow> Inr (st\<lparr>snake := s\<rparr>))"
| "apply_op Advance st =
     (case advance (snake st) (rng st) of
        Inl e \<Rightarrow> Inl e
      | Inr (s, g) \<Rightarrow> Inr (st\<lparr>snake := s, rng := g\<rparr>))"
| "apply_op Grow st = Inr (st\<lparr>snake := grow (snake st)\<rparr>)"
| "apply_op Reset st =
     (case reset (snake st) (rng st) of
        Inl e \<Rightarrow> Inl e
      | Inr (s, g) \<Rightarrow> Inr (st\<lparr>snake := s, rng := g\<rparr>))"
| "apply_op Relocate st =
     (case randomize_position (apple st) (rng st) of
        Inl e \<Rightarrow> Inl e
      | Inr (a, g) \<Rightarrow> Inr (st\<lparr>apple := a, rng := g\<rparr>))"

fun apply_ops :: "op list \<Rightarrow> game \<Rightarrow> error + game" where
  "apply_ops [] st = Inr st"
| "apply_ops (x # xs) st =
     (case apply_op x st of Inl e \<Rightarrow> Inl e | Inr st' \<Rightarrow> apply_ops xs st')"

definition play_ops :: "rng \<Rightarrow> op list \<Rightarrow> error + game" where
  "play_ops g xs = (case init_game g of Inl e \<Rightarrow> Inl e | Inr st \<Rightarrow> apply_ops xs st)"

text \<open>What holds of the snake between two passes of the loop.\<close>

definition between_ticks :: "snake \<Rightarrow> bool" where
  "between_ticks s \<longleftrightarrow>
     positions s \<noteq> [] \<and> next_direction s = None \<and>
     direction s \<in> {UP, DOWN, LEFT, RIGHT} \<and>
     (int (length (positions s)) = length_s s \<or> int (length (positions s)) + 1 = length_s s)"

text \<open>What holds of the two objects under any interleaving of the operations.\<close>

definition aligned :: "game \<Rightarrow> bool" where
  "aligned st \<longleftrightarrow>
     positions (snake st) \<noteq> [] \<and> 1 \<le> length_s (snake st) \<and>
     list_all on_grid (positions (snake st)) \<and> on_grid (position (apple st))"

subsection \<open>Concrete games\<close>

text \<open>
  A snake of four segments curled into a square of two by two cells, heading left, with a
  request to turn up into its own tail.
\<close>

definition curled :: snake where
  "curled = \<lparr>length_s = 4,
             positions = [(380, 260), (400, 260), (400, 240), (380, 240)],
             direction = LEFT, next_direction = Some UP, last_s = Some (360, 240)\<rparr>"

text \<open>
  A game that reaches the curled snake: three apples straight ahead of the start, the
  fourth on the centre of the board, then a turn down and a turn left. The draw after
  those picks the direction of a reset, the last two the apple that follows.
\<close>

definition curl_draws :: rng where
  "curl_draws = 17 ## 12 ## 18 ## 12 ## 19 ## 12 ## 16 ## 12 ## 3 ## 5 ## 7 ## sconst 0"

definition curl_events :: "event list list" where
  "curl_events = [[], [], [], [], [KEYDOWN K_DOWN], [KEYDOWN K_LEFT]]"

text \<open>
  A game that grows the snake to six segments and winds it so that the cell straight
  ahead of the head is its own tail. The draw \<open>r\<close> is the one left for the reset.
\<close>

definition spiral_draws :: "nat \<Rightarrow> rng" where
  "spiral_draws r =
     17 ## 12 ## 18 ## 12 ## 19 ## 12 ## 20 ## 12 ## 21 ## 12 ## 0 ## 0 ## r ## sconst 0"

definition spiral_events :: "event list list" where
  "spiral_events =
     [[], [], [], [], [], [], [KEYDOWN K_DOWN], [], [KEYDOWN K_LEFT], [KEYDOWN K_UP]]"

text \<open>A snake of two segments whose head is in the rightmost column, heading right.\<close>

definition at_right_edge :: snake where
  "at_right_edge = \<lparr>length_s = 2, positions = [(620, 100), (600, 100)], direction = RIGHT,
                    next_direction = None, last_s = Some (580, 100)\<rparr>"

text \<open>A snake heading right that holds a request to go left.\<close>

definition reversing :: snake where
  "reversing = \<lparr>length_s = 1, positions = [(320, 240)], direction = RIGHT,
                next_direction = Some LEFT, last_s = None\<rparr>"

text \<open>The state the curled game is in after its six passes.\<close>

definition curl_game :: game where
  "curl_game =
     \<lparr>snake = \<lparr>length_s = 4,
                positions = [(380, 260), (400, 260), (400, 240), (380, 240)],
                direction = LEFT, next_direction = None, last_s = Some (360, 240)\<rparr>,
      apple = \<lparr>position = (320, 240)\<rparr>,
      rng = 3 ## 5 ## 7 ## sconst 0\<rparr>"

text \<open>The state the spiral game is in after its ten passes.\<close>

definition spiral_game :: "nat \<Rightarrow> game" where
  "spiral_game r =
     \<lparr>snake = \<lparr>length_s = 6,
                positions = [(420, 260), (420, 280), (440, 280), (440, 260), (440, 240),
                             (420, 240)],
                direction = UP, next_direction = None, last_s = Some (400, 240)\<rparr>,
      apple = \<lparr>position = (0, 0)\<rparr>,
      rng = r ## sconst 0\<rparr>"

text \<open>A snake of two segments whose head is on the cell of the apple it has just reached.\<close>

definition fed :: snake where
  "fed = \<lparr>length_s = 2, positions = [(340, 240), (320, 240)], direction = RIGHT,
          next_direction = None, last_s = None\<rparr>"

section \<open>Facts about the operations\<close>

lemmas screen_defs =
  SCREEN_WIDTH_def SCREEN_HEIGHT_def GRID_SIZE_def GRID_WIDTH_def GRID_HEIGHT_def

lemmas dir_defs = UP_def DOWN_def LEFT_def RIGHT_def

lemma choice_directions:
  "choice [UP, DOWN, LEFT, RIGHT] g = Inr ([UP, DOWN, LEFT, RIGHT] ! (shd g mod 4), stl g)"
  by (simp add: choice_def)

lemma nth_directions: "[UP, DOWN, LEFT, RIGHT] ! (n mod 4) \<in> {UP, DOWN, LEFT, RIGHT}"
proof -
  have "n mod 4 < 4" by simp
  then have "n mod 4 = 0 \<or> n mod 4 = 1 \<or> n mod 4 = 2 \<or> n mod 4 = 3" by arith
  then show ?thesis by auto
qed

lemma reset_eq:
  "reset s g =
     Inr (s\<lparr>length_s := 1, positions := [default_position], last_s := None,
            direction := [UP, DOWN, LEFT, RIGHT] ! (shd g mod 4)\<rparr>, stl g)"
  by (simp add: reset_def choice_directions default_position_def)

lemma randomize_position_eq:
  "randomize_position a g =
     Inr (a\<lparr>position := (int (shd g mod 32) * 20, int (shd (stl g) mod 24) * 20)\<rparr>,
          stl (stl g))"
  by (simp add: randomize_position_def randint_def screen_defs)

lemma update_direction_positions [simp]:
  "positions (update_direction s) = positions s"
  "length_s (update_direction s) = length_s s"
  "next_direction (update_direction s) = None"
  by (simp_all add: update_direction_def split: option.splits)

lemma move_nonempty:
  "positions s = cur # rest \<Longrightarrow>
   move s g =
     (if collides s then reset s g
      else Inr (drop_tail (insert_head (new_pos cur (direction s)) s), g))"
  by (simp add: move_def get_head_position_def collides_def)

lemma move_empty: "positions s = [] \<Longrightarrow> move s g = Inl IndexError"
  by (simp add: move_def get_head_position_def)

lemma not_collides_short:
  assumes "length (positions s) \<le> 2"
  shows "\<not> collides s"
  using assms by (auto simp: collides_def split: list.splits)

lemma new_pos_bounds:
  "0 \<le> fst (new_pos cur d) \<and> fst (new_pos cur d) < SCREEN_WIDTH \<and>
   0 \<le> snd (new_pos cur d) \<and> snd (new_pos cur d) < SCREEN_HEIGHT"
  by (simp add: new_pos_def screen_defs)

lemma new_pos_on_grid:
  assumes "on_grid cur"
  shows "on_grid (new_pos cur d)"
proof -
  from assms have "20 dvd fst cur" and "20 dvd snd cur"
    by (simp_all add: on_grid_def screen_defs mod_eq_0_iff_dvd)
  then obtain a b where a: "fst cur = 20 * a" and b: "snd cur = 20 * b"
    unfolding dvd_def by blast
  have "(20 * a + fst d * 20) mod 640 = 20 * ((a + fst d) mod 32)"
    using mult_mod_right [of 20 "a + fst d" 32] by (simp add: algebra_simps)
  moreover have "(20 * b + snd d * 20) mod 480 = 20 * ((b + snd d) mod 24)"
    using mult_mod_right [of 20 "b + snd d" 24] by (simp add: algebra_simps)
  ultimately show ?thesis
    using a b by (simp add: on_grid_def new_pos_def screen_defs)
qed

lemma on_grid_default: "on_grid default_position"
  by (simp add: on_grid_def default_position_def screen_defs)

lemma on_grid_draws: "on_grid (int (m mod 32) * 20, int (n mod 24) * 20)"
proof -
  have "m mod 32 < 32" "n mod 24 < 24" by simp_all
  then have "int (m mod 32) * 20 < 640" "int (n mod 24) * 20 < 480" by linarith+
  then show ?thesis by (simp add: on_grid_def screen_defs)
qed

lemma head_drop_tail_insert_head:
  assumes "positions s \<noteq> []"
  shows "\<exists>ps. positions (drop_tail (insert_head p s)) = p # ps"
  using assms by (cases "positions s") (simp_all add: drop_tail_def insert_head_def)

lemma drop_tail_fields [simp]:
  "direction (drop_tail s) = direction s"
  "next_direction (drop_tail s) = next_direction s"
  "length_s (drop_tail s) = length_s s"
  by (simp_all add: drop_tail_def)

lemma insert_head_fields [simp]:
  "direction (insert_head p s) = direction s"
  "next_direction (insert_head p s) = next_direction s"
  "length_s (insert_head p s) = length_s s"
  "positions (insert_head p s) = p # positions s"
  by (simp_all add: insert_head_def)

lemma handle_key_fields [simp]:
  "direction (handle_key k s) = direction s"
  "positions (handle_key k s) = positions s"
  "length_s (handle_key k s) = length_s s"
  by (simp_all add: handle_key_def)

lemma handle_key_next:
  "next_direction (handle_key k s) = next_direction s \<or>
   (\<exists>d. next_direction (handle_key k s) = Some d \<and> d \<in> {UP, DOWN, LEFT, RIGHT} \<and>
        d \<noteq> opposite (direction s))"
  by (cases "direction s") (auto simp: handle_key_def opposite_def dir_defs)

lemma handle_keys_fields:
  "handle_keys evs s = Inr s' \<Longrightarrow>
   direction s' = direction s \<and> positions s' = positions s \<and> length_s s' = length_s s"
proof (induction evs s rule: handle_keys.induct)
  case (3 k evs s)
  then show ?case by simp
qed simp_all

lemma handle_keys_next:
  "handle_keys evs s = Inr s' \<Longrightarrow>
   next_direction s' = next_direction s \<or>
   (\<exists>d. next_direction s' = Some d \<and> d \<in> {UP, DOWN, LEFT, RIGHT} \<and>
        d \<noteq> opposite (direction s))"
proof (induction evs s rule: handle_keys.induct)
  case (3 k evs s)
  from 3 have *: "handle_keys evs (handle_key k s) = Inr s'" by simp
  from "3.IH" [OF *] handle_key_next [of k s] show ?case by auto
qed simp_all

lemma advance_collides:
  assumes "collides (update_direction s)"
  shows "advance s g =
     Inr ((update_direction s)\<lparr>length_s := 1, positions := [default_position], last_s := None,
            direction := [UP, DOWN, LEFT, RIGHT] ! (shd g mod 4)\<rparr>, stl g)"
proof -
  from assms obtain cur rest where "positions (update_direction s) = cur # rest"
    by (auto simp: collides_def split: list.splits)
  with assms show ?thesis
    by (simp add: advance_def move_nonempty reset_eq del: update_direction_positions)
qed

lemma advance_free:
  assumes "positions s = cur # rest" and "\<not> collides (update_direction s)"
  shows "advance s g =
     Inr (drop_tail (insert_head (new_pos cur (direction (update_direction s)))
            (update_direction s)), g)"
proof -
  from assms(1) have "positions (update_direction s) = cur # rest" by simp
  with assms(2) show ?thesis
    by (simp add: advance_def move_nonempty del: update_direction_positions)
qed

lemmas run_simps =
  advance_def move_def update_direction_def reset_def choice_def get_head_position_def
  new_pos_def insert_head_def drop_tail_def collides_def handle_key_def grow_def
  default_position_def screen_defs dir_defs

lemma advance_head:
  assumes "positions s = cur # rest" and "\<not> collides (update_direction s)"
  shows "case advance s g of
           Inl e \<Rightarrow> False
         | Inr (s', g') \<Rightarrow>
             (case positions s' of
                [] \<Rightarrow> False
              | h # ps \<Rightarrow>
                  h = ((fst cur + fst (direction s') * GRID_SIZE) mod SCREEN_WIDTH,
                       (snd cur + snd (direction s') * GRID_SIZE) mod SCREEN_HEIGHT) \<and>
                  0 \<le> fst h \<and> fst h < SCREEN_WIDTH \<and>
                  0 \<le> snd h \<and> snd h < SCREEN_HEIGHT)"
proof -
  let ?s1 = "update_direction s"
  let ?p = "new_pos cur (direction ?s1)"
  have adv: "advance s g = Inr (drop_tail (insert_head ?p ?s1), g)"
    using assms by (rule advance_free)
  have "positions ?s1 \<noteq> []" using assms(1) by simp
  then obtain ps where q: "positions (drop_tail (insert_head ?p ?s1)) = ?p # ps"
    using head_drop_tail_insert_head by blast
  show ?thesis
    using new_pos_bounds [of cur "direction ?s1"]
    by (simp add: adv q) (simp add: new_pos_def)
qed

lemma new_pos_edges:
  assumes "0 \<le> x" and "x < SCREEN_WIDTH" and "0 \<le> y" and "y < SCREEN_HEIGHT"
  shows "new_pos (SCREEN_WIDTH - GRID_SIZE, y) RIGHT = (0, y)"
    and "new_pos (0, y) LEFT = (SCREEN_WIDTH - GRID_SIZE, y)"
    and "new_pos (x, SCREEN_HEIGHT - GRID_SIZE) DOWN = (x, 0)"
    and "new_pos (x, 0) UP = (x, SCREEN_HEIGHT - GRID_SIZE)"
  using assms by (simp_all add: new_pos_def screen_defs dir_defs)

lemma eat_check_eq:
  "positions s = h # rest \<Longrightarrow>
   eat_check s a g =
     (if h = position a
      then Inr \<lparr>snake = grow s,
                apple = a\<lparr>position := (int (shd g mod 32) * 20, int (shd (stl g) mod 24) * 20)\<rparr>,
                rng = stl (stl g)\<rparr>
      else Inr \<lparr>snake = s, apple = a, rng = g\<rparr>)"
  by (simp add: eat_check_def get_head_position_def randomize_position_eq)

lemma update_direction_dir:
  assumes "direction s \<in> {UP, DOWN, LEFT, RIGHT}"
    and "next_direction s = None \<or> (\<exists>d. next_direction s = Some d \<and> d \<in> {UP, DOWN, LEFT, RIGHT})"
  shows "direction (update_direction s) \<in> {UP, DOWN, LEFT, RIGHT}"
  using assms by (auto simp: update_direction_def)

lemma length_drop_tail_insert_head:
  assumes "positions s \<noteq> []"
    and "int (length (positions s)) = length_s s \<or> int (length (positions s)) + 1 = length_s s"
  shows "int (length (positions (drop_tail (insert_head p s)))) = length_s s"
    and "positions (drop_tail (insert_head p s)) \<noteq> []"
  using assms by (auto simp: drop_tail_def insert_head_def)

lemma keys_keep_between:
  assumes "between_ticks s0" and "handle_keys evs s0 = Inr s1"
  shows "positions s1 \<noteq> []"
    and "int (length (positions s1)) = length_s s1 \<or> int (length (positions s1)) + 1 = length_s s1"
    and "direction s1 = direction s0"
    and "direction (update_direction s1) \<in> {UP, DOWN, LEFT, RIGHT}"
    and "direction (update_direction s1) \<noteq> opposite (direction s0)"
proof -
  note f = handle_keys_fields [OF assms(2)]
  note n = handle_keys_next [OF assms(2)]
  from assms(1) have b: "positions s0 \<noteq> []" "next_direction s0 = None"
    "direction s0 \<in> {UP, DOWN, LEFT, RIGHT}"
    "int (length (positions s0)) = length_s s0 \<or> int (length (positions s0)) + 1 = length_s s0"
    by (simp_all add: between_ticks_def)
  show "positions s1 \<noteq> []" using f b(1) by simp
  show "int (length (positions s1)) = length_s s1 \<or> int (length (positions s1)) + 1 = length_s s1"
    using f b(4) by simp
  show "direction s1 = direction s0" using f by simp
  show "direction (update_direction s1) \<in> {UP, DOWN, LEFT, RIGHT}"
    using n b(2,3) f by (intro update_direction_dir) auto
  have "direction s0 \<noteq> opposite (direction s0)"
    using b(3) by (auto simp: opposite_def dir_defs)
  then show "direction (update_direction s1) \<noteq> opposite (direction s0)"
    using n b(2) f by (auto simp: update_direction_def split: option.splits)
qed

lemma advance_settles:
  assumes "between_ticks s0" and "handle_keys evs s0 = Inr s1"
  shows "\<exists>s2 g'. advance s1 g = Inr (s2, g') \<and> between_ticks s2 \<and>
           int (length (positions s2)) = length_s s2"
proof -
  note k = keys_keep_between [OF assms]
  let ?u = "update_direction s1"
  from k(1) obtain cur rest where p: "positions s1 = cur # rest" by (cases "positions s1") auto
  show ?thesis
  proof (cases "collides ?u")
    case True
    then show ?thesis
      using nth_directions [of "shd g"]
      by (simp add: advance_collides between_ticks_def)
  next
    case False
    have ne: "positions ?u \<noteq> []" using k(1) by simp
    have len: "int (length (positions ?u)) = length_s ?u \<or>
        int (length (positions ?u)) + 1 = length_s ?u"
      using k(2) by simp
    note l = length_drop_tail_insert_head [OF ne len]
    show ?thesis
      using l [of "new_pos cur (direction ?u)"] k(4)
      by (simp add: advance_free [OF p False] between_ticks_def)
  qed
qed

lemma eat_check_between:
  assumes "between_ticks s" and "int (length (positions s)) = length_s s"
  shows "\<exists>st'. eat_check s a g = Inr st' \<and> between_ticks (snake st')"
proof -
  from assms(1) obtain h rest where p: "positions s = h # rest"
    by (cases "positions s") (auto simp: between_ticks_def)
  show ?thesis
    using assms by (auto simp: eat_check_eq [OF p] between_ticks_def grow_def)
qed

lemma tick_between:
  assumes "between_ticks (snake st)" and "tick evs st = Inr st'"
  shows "between_ticks (snake st')"
proof -
  from assms(2) obtain s1 where h: "handle_keys evs (snake st) = Inr s1"
    by (auto simp: tick_def split: sum.splits)
  from advance_settles [OF assms(1) h, of "rng st"] obtain s2 g'
    where a: "advance s1 (rng st) = Inr (s2, g')" and b: "between_ticks s2"
      and l: "int (length (positions s2)) = length_s s2" by blast
  from eat_check_between [OF b l, of "apple st" g'] assms(2) h a show ?thesis
    by (auto simp: tick_def)
qed

lemma run_between:
  "between_ticks (snake st) \<Longrightarrow> run evss st = Inr st' \<Longrightarrow> between_ticks (snake st')"
proof (induction evss arbitrary: st)
  case Nil
  then show ?case by simp
next
  case (Cons evs evss)
  from Cons.prems(2) obtain st1 where t: "tick evs st = Inr st1" and r: "run evss st1 = Inr st'"
    by (auto split: sum.splits)
  from Cons.IH [OF tick_between [OF Cons.prems(1) t] r] show ?case .
qed

lemma init_game_eq:
  "init_game g =
     Inr \<lparr>snake = Snake,
          apple = \<lparr>position = (int (shd g mod 32) * 20, int (shd (stl g) mod 24) * 20)\<rparr>,
          rng = stl (stl g)\<rparr>"
  by (simp add: init_game_def Apple_def randomize_position_eq)

lemma between_Snake: "between_ticks Snake"
  by (simp add: between_ticks_def Snake_def)

lemma play_between:
  assumes "play g evss = Inr st"
  shows "between_ticks (snake st)"
proof -
  obtain st0 where i: "init_game g = Inr st0" and s: "snake st0 = Snake"
    by (simp add: init_game_eq)
  from assms i have "run evss st0 = Inr st" by (simp add: play_def)
  with between_Snake s show ?thesis by (intro run_between [of st0 evss st]) simp_all
qed

lemmas game_simps = play_def init_game_def Apple_def randomize_position_def randint_def
  tick_def eat_check_def Snake_def run_simps

lemma curl_state:
  "play curl_draws curl_events =
     Inr \<lparr>snake = \<lparr>length_s = 4,
                    positions = [(380, 260), (400, 260), (400, 240), (380, 240)],
                    direction = LEFT, next_direction = None, last_s = Some (360, 240)\<rparr>,
          apple = \<lparr>position = (320, 240)\<rparr>,
          rng = 3 ## 5 ## 7 ## sconst 0\<rparr>"
  by (simp add: curl_draws_def curl_events_def game_simps)

lemma spiral_state:
  "play (spiral_draws r) spiral_events =
     Inr \<lparr>snake = \<lparr>length_s = 6,
                    positions = [(420, 260), (420, 280), (440, 280), (440, 260), (440, 240),
                                 (420, 240)],
                    direction = UP, next_direction = None, last_s = Some (400, 240)\<rparr>,
          apple = \<lparr>position = (0, 0)\<rparr>,
          rng = r ## sconst 0\<rparr>"
  by (simp add: spiral_draws_def spiral_events_def game_simps)

lemma play_curl: "play curl_draws curl_events = Inr curl_game"
  by (simp add: curl_game_def curl_state)

lemma play_spiral: "play (spiral_draws r) spiral_events = Inr (spiral_game r)"
  by (simp add: spiral_game_def spiral_state)

lemma tick_collides:
  assumes "handle_keys evs (snake st) = Inr s1" and "collides (update_direction s1)"
  shows "tick evs st =
     eat_check ((update_direction s1)\<lparr>length_s := 1, positions := [default_position],
                  last_s := None, direction := [UP, DOWN, LEFT, RIGHT] ! (shd (rng st) mod 4)\<rparr>)
       (apple st) (stl (rng st))"
  using assms by (simp add: tick_def advance_collides)

lemma tick_free:
  assumes "handle_keys evs (snake st) = Inr s1" and "positions s1 = cur # rest"
    and "\<not> collides (update_direction s1)"
  shows "tick evs st =
     eat_check (drop_tail (insert_head (new_pos cur (direction (update_direction s1)))
                  (update_direction s1))) (apple st) (rng st)"
  using assms(1) by (simp add: tick_def advance_free [OF assms(2,3)])

lemma handle_keys_ignored:
  assumes "key_direction k = Some (opposite (direction s))"
    and "set evs \<subseteq> {KEYDOWN k, OTHER}"
  shows "handle_keys evs s = Inr s"
  using assms(2)
proof (induction evs)
  case Nil
  then show ?case by simp
next
  case (Cons e evs)
  have same: "handle_key k s = s"
    using assms(1) by (cases k; cases "direction s") (auto simp: handle_key_def opposite_def dir_defs)
  from Cons.prems have "e = KEYDOWN k \<or> e = OTHER" by auto
  then show ?case using Cons same by auto
qed

lemma handle_keys_error: "handle_keys evs s = Inl e \<Longrightarrow> e = SystemExit"
  by (induction evs s rule: handle_keys.induct) simp_all

lemma list_all_butlast: "list_all P xs \<Longrightarrow> list_all P (butlast xs)"
  by (induction xs) auto

lemma aligned_advance:
  assumes "aligned st"
  shows "\<exists>s g. advance (snake st) (rng st) = Inr (s, g) \<and> aligned (st\<lparr>snake := s, rng := g\<rparr>)"
proof -
  let ?u = "update_direction (snake st)"
  from assms obtain cur rest where p: "positions (snake st) = cur # rest"
    by (cases "positions (snake st)") (auto simp: aligned_def)
  from assms p have g: "on_grid cur" "list_all on_grid (positions (snake st))"
    "on_grid (position (apple st))" "1 \<le> length_s (snake st)"
    by (simp_all add: aligned_def)
  show ?thesis
  proof (cases "collides ?u")
    case True
    then show ?thesis
      using g(3) on_grid_default by (simp add: advance_collides aligned_def)
  next
    case False
    have n: "on_grid (new_pos cur (direction ?u))" using g(1) by (rule new_pos_on_grid)
    have "list_all on_grid (butlast (new_pos cur (direction ?u) # positions (snake st)))"
      using n g(2) by (intro list_all_butlast) simp
    then show ?thesis
      using n g p by (simp add: advance_free [OF p False] aligned_def drop_tail_def)
  qed
qed

lemma aligned_apply_op:
  assumes "aligned st"
  shows "case apply_op x st of Inl e \<Rightarrow> e = SystemExit | Inr st' \<Rightarrow> aligned st'"
proof (cases x)
  case (Keys evs)
  show ?thesis
  proof (cases "handle_keys evs (snake st)")
    case (Inl e)
    from handle_keys_error [OF Inl] show ?thesis using Keys Inl by simp
  next
    case (Inr s)
    from handle_keys_fields [OF Inr] assms show ?thesis
      using Keys Inr by (simp add: aligned_def)
  qed
next
  case Advance
  from aligned_advance [OF assms] show ?thesis using Advance by auto
next
  case Grow
  then show ?thesis using assms by (simp add: aligned_def grow_def)
next
  case Reset
  then show ?thesis using assms on_grid_default by (simp add: reset_eq aligned_def)
next
  case Relocate
  then show ?thesis
    using assms on_grid_draws [of "shd (rng st)" "shd (stl (rng st))"]
    by (simp add: randomize_position_eq aligned_def)
qed

lemma aligned_apply_ops:
  "aligned st \<Longrightarrow>
   (case apply_ops xs st of Inl e \<Rightarrow> e = SystemExit | Inr st' \<Rightarrow> aligned st')"
proof (induction xs arbitrary: st)
  case Nil
  then show ?case by simp
next
  case (Cons x xs)
  from aligned_apply_op [OF Cons.prems, of x] Cons.IH show ?case
    by (cases "apply_op x st") auto
qed

lemma aligned_init: "init_game g = Inr st \<Longrightarrow> aligned st"
  using on_grid_draws [of "shd g" "shd (stl g)"] on_grid_default
  by (auto simp: init_game_eq aligned_def Snake_def)

section \<open>The claims\<close>

text \<open>
  C1. Whenever the cell the head would enter lies in \<open>positions[2:]\<close>, \<open>advance\<close> takes the
  reset transition: the snake is the single cell at the centre of the board, its \<open>length\<close>
  is 1, \<open>last\<close> is \<open>None\<close>, and the direction is the one \<open>choice\<close> draws from the random
  source among the four directions. Nothing is prepended and nothing popped.
\<close>

theorem advance_self_collision_resets:
  assumes "collides (update_direction s)"
  shows "case advance s g of
           Inl e \<Rightarrow> False
         | Inr (s', g') \<Rightarrow>
             positions s' = [(SCREEN_WIDTH div 2, SCREEN_HEIGHT div 2)] \<and>
             length_s s' = 1 \<and> last_s s' = None \<and>
             direction s' \<in> {UP, DOWN, LEFT, RIGHT} \<and>
             choice [UP, DOWN, LEFT, RIGHT] g = Inr (direction s', g')"
  using assms nth_directions [of "shd g"]
  by (simp add: advance_collides choice_directions default_position_def)

text \<open>
  The curled snake is such a state.
\<close>

theorem advance_self_collision_resets_witness:
  "collides (update_direction curled) \<and>
   (case advance curled (sconst 3) of
      Inl e \<Rightarrow> False
    | Inr (s', g') \<Rightarrow>
        positions s' = [(SCREEN_WIDTH div 2, SCREEN_HEIGHT div 2)] \<and>
        length_s s' = 1 \<and> last_s s' = None \<and>
        direction s' \<in> {UP, DOWN, LEFT, RIGHT} \<and>
        choice [UP, DOWN, LEFT, RIGHT] (sconst 3) = Inr (direction s', g'))"
proof -
  have c: "collides (update_direction curled)"
    by (simp add: curled_def run_simps)
  from advance_self_collision_resets [OF c, of "sconst 3"] c show ?thesis by simp
qed

text \<open>
  C2. The head \<open>advance\<close> commits is the old head plus one cell in the committed direction,
  each coordinate reduced modulo the extent of the screen in its axis, so it is never
  negative and always below the extent, for every head and every direction. Leaving the
  board over one of its four edges enters it again at the opposite edge, in the same row
  or column.
\<close>

theorem new_head_wraps:
  assumes "positions s = cur # rest" and "\<not> collides (update_direction s)"
    and "0 \<le> x" and "x < SCREEN_WIDTH" and "0 \<le> y" and "y < SCREEN_HEIGHT"
  shows "(case advance s g of
            Inl e \<Rightarrow> False
          | Inr (s', g') \<Rightarrow>
              (case positions s' of
                 [] \<Rightarrow> False
               | h # ps \<Rightarrow>
                   h = ((fst cur + fst (direction s') * GRID_SIZE) mod SCREEN_WIDTH,
                        (snd cur + snd (direction s') * GRID_SIZE) mod SCREEN_HEIGHT) \<and>
                   0 \<le> fst h \<and> fst h < SCREEN_WIDTH \<and>
                   0 \<le> snd h \<and> snd h < SCREEN_HEIGHT)) \<and>
         0 \<le> fst (new_pos c d) \<and> fst (new_pos c d) < SCREEN_WIDTH \<and>
         0 \<le> snd (new_pos c d) \<and> snd (new_pos c d) < SCREEN_HEIGHT \<and>
         new_pos (SCREEN_WIDTH - GRID_SIZE, y) RIGHT = (0, y) \<and>
         new_pos (0, y) LEFT = (SCREEN_WIDTH - GRID_SIZE, y) \<and>
         new_pos (x, SCREEN_HEIGHT - GRID_SIZE) DOWN = (x, 0) \<and>
         new_pos (x, 0) UP = (x, SCREEN_HEIGHT - GRID_SIZE)"
  using advance_head [OF assms(1,2), of g] new_pos_bounds [of c d]
    new_pos_edges [OF assms(3-6)]
  by simp

text \<open>
  At the right edge, and for a head and a direction no game produces.
\<close>

theorem new_head_wraps_witness:
  "positions at_right_edge = [(620, 100), (600, 100)] \<and>
   \<not> collides (update_direction at_right_edge) \<and>
   map_sum id (positions \<circ> fst) (advance at_right_edge (sconst 0)) =
     Inr [(0, 100), (620, 100)] \<and>
   new_pos (- 20, - 20) (- 3, 7) = (560, 120) \<and>
   new_pos (620, 100) RIGHT = (0, 100) \<and>
   new_pos (0, 100) LEFT = (620, 100) \<and>
   new_pos (300, 460) DOWN = (300, 0) \<and>
   new_pos (300, 0) UP = (300, 460)"
proof -
  have p: "positions at_right_edge = [(620, 100), (600, 100)]"
    by (simp add: at_right_edge_def)
  have c: "\<not> collides (update_direction at_right_edge)"
    by (simp add: at_right_edge_def run_simps)
  have a: "advance at_right_edge (sconst 0) =
      Inr (at_right_edge\<lparr>positions := [(0, 100), (620, 100)], last_s := Some (600, 100)\<rparr>,
           sconst 0)"
    by (simp add: at_right_edge_def run_simps)
  have b: "(0::int) \<le> 300 \<and> (300::int) < SCREEN_WIDTH \<and> (0::int) \<le> 100 \<and>
      (100::int) < SCREEN_HEIGHT"
    by (simp add: screen_defs)
  from new_head_wraps [OF p c, of 300 100 "sconst 0" "(- 20, - 20)" "(- 3, 7)"] b p c
  show ?thesis
    by (simp add: a) (simp add: new_pos_def screen_defs)
qed

text \<open>
  C3. In every state the loop reaches from the initial snake, and for every list of events
  of the next pass: after \<open>advance\<close> the number of segments is exactly \<open>length\<close>; and on a
  pass that commits the move, the number of segments after the insertion of the new head,
  just before the tail is resolved, is \<open>length\<close> or \<open>length + 1\<close>, and exactly \<open>length\<close>
  after it.
\<close>

theorem segment_count_tracks_length:
  assumes "play g evss = Inr st" and "handle_keys evs (snake st) = Inr s1"
  shows "(case advance s1 (rng st) of
            Inl e \<Rightarrow> False
          | Inr (s2, g') \<Rightarrow> int (length (positions s2)) = length_s s2) \<and>
         (case positions s1 of
            [] \<Rightarrow> False
          | cur # rest \<Rightarrow>
              collides (update_direction s1) \<or>
              (let s = insert_head (new_pos cur (direction (update_direction s1)))
                         (update_direction s1)
               in (int (length (positions s)) = length_s s \<or>
                   int (length (positions s)) = length_s s + 1) \<and>
                  int (length (positions (drop_tail s))) = length_s s \<and>
                  advance s1 (rng st) = Inr (drop_tail s, rng st)))"
proof -
  note b = play_between [OF assms(1)]
  note k = keys_keep_between [OF b assms(2)]
  from advance_settles [OF b assms(2), of "rng st"]
  have first: "case advance s1 (rng st) of
            Inl e \<Rightarrow> False
          | Inr (s2, g') \<Rightarrow> int (length (positions s2)) = length_s s2"
    by auto
  from k(1) obtain cur rest where p: "positions s1 = cur # rest" by (cases "positions s1") auto
  let ?u = "update_direction s1"
  have ne: "positions ?u \<noteq> []" using k(1) by simp
  have len: "int (length (positions ?u)) = length_s ?u \<or>
      int (length (positions ?u)) + 1 = length_s ?u"
    using k(2) by simp
  note l = length_drop_tail_insert_head(1) [OF ne len, of "new_pos cur (direction ?u)"]
  have second: "collides ?u \<or>
      (let s = insert_head (new_pos cur (direction ?u)) ?u
       in (int (length (positions s)) = length_s s \<or>
           int (length (positions s)) = length_s s + 1) \<and>
          int (length (positions (drop_tail s))) = length_s s \<and>
          advance s1 (rng st) = Inr (drop_tail s, rng st))"
  proof (cases "collides ?u")
    case True
    then show ?thesis by simp
  next
    case False
    show ?thesis
      using l len by (auto simp add: Let_def advance_free [OF p False])
  qed
  show ?thesis using first second by (simp add: p)
qed

text \<open>
  The curled game, one pass further with no key pressed: five segments, then four.
\<close>

theorem segment_count_tracks_length_witness:
  "play curl_draws curl_events = Inr curl_game \<and>
   handle_keys [] (snake curl_game) = Inr (snake curl_game) \<and>
   \<not> collides (update_direction (snake curl_game)) \<and>
   length (positions (insert_head (360, 260) (snake curl_game))) = 5 \<and>
   length_s (snake curl_game) = 4 \<and>
   length (positions (drop_tail (insert_head (360, 260) (snake curl_game)))) = 4 \<and>
   advance (snake curl_game) (rng curl_game) =
     Inr (drop_tail (insert_head (360, 260) (snake curl_game)), rng curl_game)"
proof -
  have h: "handle_keys [] (snake curl_game) = Inr (snake curl_game)" by simp
  from segment_count_tracks_length [OF play_curl h] play_curl h show ?thesis
    by (simp add: curl_game_def run_simps)
qed

text \<open>
  C4, as stated, fails: \<open>update_direction\<close> has no test for a reversal. A snake heading
  right that holds the request \<open>LEFT\<close> heads left after \<open>advance\<close>.
\<close>

theorem advance_drops_reversal_counterexample:
  "next_direction reversing = Some (opposite (direction reversing)) \<and>
   map_sum id (direction \<circ> fst) (advance reversing (sconst 0)) = Inr LEFT \<and>
   LEFT \<noteq> direction reversing"
  by (simp add: reversing_def opposite_def run_simps)

text \<open>
  C4, amended. For every snake that holds a pending request, \<open>update_direction\<close> commits
  it into \<open>direction\<close>, the opposite of the current direction included, and clears it.
  After \<open>advance\<close> the request is cleared; the direction is the request when the move
  does not collide, and the draw of \<open>choice\<close> when it collides and the snake is reset
  (a snake with no segment raises). Reversals are dropped by the input layer alone:
  starting from no pending request, \<open>handle_keys\<close> leaves \<open>direction\<close> as it is and never
  stores the opposite of it.
\<close>

theorem advance_commits_pending:
  assumes "next_direction s = Some d"
    and "handle_keys evs s0 = Inr s1" and "next_direction s0 = None"
  shows "direction (update_direction s) = d \<and>
         next_direction (update_direction s) = None \<and>
         (case advance s g of
            Inl e \<Rightarrow> positions s = []
          | Inr (s', g') \<Rightarrow>
              positions s \<noteq> [] \<and> next_direction s' = None \<and>
              (if collides (update_direction s)
               then choice [UP, DOWN, LEFT, RIGHT] g = Inr (direction s', g')
               else direction s' = d)) \<and>
         direction s1 = direction s0 \<and>
         next_direction s1 \<noteq> Some (opposite (direction s0))"
proof -
  have u: "direction (update_direction s) = d"
    using assms(1) by (simp add: update_direction_def)
  have a: "case advance s g of
            Inl e \<Rightarrow> positions s = []
          | Inr (s', g') \<Rightarrow>
              positions s \<noteq> [] \<and> next_direction s' = None \<and>
              (if collides (update_direction s)
               then choice [UP, DOWN, LEFT, RIGHT] g = Inr (direction s', g')
               else direction s' = d)"
  proof (cases "positions s")
    case Nil
    then show ?thesis by (simp add: advance_def move_empty)
  next
    case (Cons cur rest)
    show ?thesis
    proof (cases "collides (update_direction s)")
      case True
      then show ?thesis
        using Cons by (simp add: advance_collides choice_directions)
    next
      case False
      then show ?thesis
        using Cons u by (simp add: advance_free [OF Cons False])
    qed
  qed
  have "direction s1 = direction s0"
    using handle_keys_fields [OF assms(2)] by simp
  moreover have "next_direction s1 \<noteq> Some (opposite (direction s0))"
    using handle_keys_next [OF assms(2)] assms(3) by auto
  ultimately show ?thesis using u a by simp
qed

text \<open>
  The reversing snake, and the initial snake under a press of the left key.
\<close>

theorem advance_commits_pending_witness:
  "next_direction reversing = Some LEFT \<and>
   handle_keys [KEYDOWN K_LEFT] Snake = Inr Snake \<and> next_direction Snake = None \<and>
   direction (update_direction reversing) = LEFT \<and>
   next_direction (update_direction reversing) = None \<and>
   \<not> collides (update_direction reversing) \<and>
   map_sum id (direction \<circ> fst) (advance reversing (sconst 0)) = Inr LEFT \<and>
   map_sum id (next_direction \<circ> fst) (advance reversing (sconst 0)) = Inr None \<and>
   direction Snake = RIGHT \<and> next_direction Snake \<noteq> Some (opposite RIGHT)"
proof -
  have n: "next_direction reversing = Some LEFT" by (simp add: reversing_def)
  have c: "\<not> collides (update_direction reversing)"
    by (simp add: reversing_def run_simps)
  have h: "handle_keys [KEYDOWN K_LEFT] Snake = Inr Snake"
    by (simp add: Snake_def handle_key_def dir_defs)
  have s: "next_direction Snake = None" by (simp add: Snake_def)
  have p: "positions reversing = [(320, 240)]" by (simp add: reversing_def)
  from advance_commits_pending [OF n h s, of "sconst 0"] n c h s p show ?thesis
    by (auto simp: Snake_def split: sum.splits)
qed

text \<open>
  C5, as stated, fails: the early \<open>return\<close> leaves \<open>move\<close>, not the pass of the loop, and
  the apple check of lines 252--254 runs on the head the reset has put on the centre. In
  the curled game the apple lies on the centre when the snake runs into its tail: after
  that pass \<open>length\<close> is 2 and the apple has moved.
\<close>

theorem reset_tick_skips_apple_counterexample:
  "play curl_draws curl_events = Inr curl_game \<and>
   handle_keys [KEYDOWN K_UP] (snake curl_game) = Inr curled \<and>
   collides (update_direction curled) \<and>
   length_s (snake curl_game) = 4 \<and>
   position (apple curl_game) = (320, 240) \<and>
   map_sum id (\<lambda>st. (positions (snake st), length_s (snake st), position (apple st)))
     (tick [KEYDOWN K_UP] curl_game) = Inr ([(320, 240)], 2, (100, 140))"
  using play_curl by (simp add: curl_game_def curled_def game_simps)

text \<open>
  C5, amended. On a pass in which \<open>advance\<close> takes the reset transition no head is
  prepended and no tail popped, and the apple check still runs: with the apple on any
  cell but the centre, \<open>length\<close> stays 1, the apple stays where it is and only the draw
  of the reset is consumed; with the apple on the centre, \<open>length\<close> becomes 2 and the apple
  is relocated.
\<close>

theorem reset_tick_apple_check:
  assumes "handle_keys evs (snake st) = Inr s1" and "collides (update_direction s1)"
  shows "case tick evs st of
           Inl e \<Rightarrow> False
         | Inr st' \<Rightarrow>
             positions (snake st') = [default_position] \<and> last_s (snake st') = None \<and>
             (if position (apple st) = default_position
              then length_s (snake st') = 2 \<and>
                   randomize_position (apple st) (stl (rng st)) = Inr (apple st', rng st')
              else length_s (snake st') = 1 \<and> apple st' = apple st \<and>
                   rng st' = stl (rng st))"
  by (simp add: tick_collides [OF assms] eat_check_eq randomize_position_eq grow_def)

text \<open>
  The spiral game, whose apple is in the corner when the snake runs into itself.
\<close>

theorem reset_tick_apple_check_witness:
  "handle_keys [KEYDOWN K_DOWN] (snake (spiral_game 2)) = Inr (snake (spiral_game 2)) \<and>
   collides (update_direction (snake (spiral_game 2))) \<and>
   position (apple (spiral_game 2)) \<noteq> default_position \<and>
   map_sum id (\<lambda>st. (positions (snake st), last_s (snake st), length_s (snake st), apple st,
       rng st)) (tick [KEYDOWN K_DOWN] (spiral_game 2)) =
     Inr ([default_position], None, 1, apple (spiral_game 2), stl (rng (spiral_game 2)))"
proof -
  have h: "handle_keys [KEYDOWN K_DOWN] (snake (spiral_game 2)) = Inr (snake (spiral_game 2))"
    by (simp add: spiral_game_def handle_key_def dir_defs)
  have c: "collides (update_direction (snake (spiral_game 2)))"
    by (simp add: spiral_game_def run_simps)
  have a: "position (apple (spiral_game 2)) \<noteq> default_position"
    by (simp add: spiral_game_def default_position_def screen_defs)
  from reset_tick_apple_check [OF h c] h c a show ?thesis
    by (auto split: sum.splits)
qed

text \<open>
  C6, as stated, fails on a pass that resets: \<open>choice\<close> draws among all four directions.
  The snake of the spiral game heads up, straight into its own tail, and with no key
  pressed comes out of the reset heading down.
\<close>

theorem no_reversal_counterexample:
  "play (spiral_draws 1) spiral_events = Inr (spiral_game 1) \<and>
   direction (snake (spiral_game 1)) = UP \<and>
   collides (update_direction (snake (spiral_game 1))) \<and>
   map_sum id (direction \<circ> snake) (tick [] (spiral_game 1)) = Inr DOWN \<and>
   DOWN = opposite UP"
  using play_spiral [of 1] by (simp add: spiral_game_def opposite_def game_simps)

text \<open>
  C6, amended. In every state the loop reaches from the initial snake, the direction after
  the next pass is one of the four directions; on a pass that does not reset it is the
  direction \<open>update_direction\<close> committed and is not the opposite of the direction before
  the pass; on a pass that resets it is whatever \<open>choice\<close> draws.
\<close>

theorem no_reversal_without_reset:
  assumes "play g evss = Inr st" and "handle_keys evs (snake st) = Inr s1"
  shows "case tick evs st of
           Inl e \<Rightarrow> False
         | Inr st' \<Rightarrow>
             direction (snake st') \<in> {UP, DOWN, LEFT, RIGHT} \<and>
             (if collides (update_direction s1)
              then choice [UP, DOWN, LEFT, RIGHT] (rng st) =
                     Inr (direction (snake st'), stl (rng st))
              else direction (snake st') = direction (update_direction s1) \<and>
                   direction (snake st') \<noteq> opposite (direction (snake st)))"
proof -
  note b = play_between [OF assms(1)]
  note k = keys_keep_between [OF b assms(2)]
  from k(1) obtain cur rest where p: "positions s1 = cur # rest" by (cases "positions s1") auto
  show ?thesis
  proof (cases "collides (update_direction s1)")
    case True
    show ?thesis
      using True nth_directions [of "shd (rng st)"]
      by (simp add: tick_collides [OF assms(2) True] eat_check_eq choice_directions grow_def)
  next
    case False
    let ?s = "drop_tail (insert_head (new_pos cur (direction (update_direction s1)))
                (update_direction s1))"
    have "positions ?s \<noteq> []"
      using k(1,2) by (intro length_drop_tail_insert_head(2)) simp_all
    then obtain h tl where q: "positions ?s = h # tl" by (cases "positions ?s") auto
    show ?thesis
      using False k(4,5)
      by (simp add: tick_free [OF assms(2) p False] eat_check_eq [OF q] grow_def)
  qed
qed

text \<open>
  The curled game, one pass further with the down key pressed.
\<close>

theorem no_reversal_without_reset_witness:
  "play curl_draws curl_events = Inr curl_game \<and>
   handle_keys [KEYDOWN K_DOWN] (snake curl_game) =
     Inr ((snake curl_game)\<lparr>next_direction := Some DOWN\<rparr>) \<and>
   \<not> collides (update_direction ((snake curl_game)\<lparr>next_direction := Some DOWN\<rparr>)) \<and>
   map_sum id (direction \<circ> snake) (tick [KEYDOWN K_DOWN] curl_game) = Inr DOWN \<and>
   DOWN \<noteq> opposite (direction (snake curl_game))"
proof -
  have h: "handle_keys [KEYDOWN K_DOWN] (snake curl_game) =
     Inr ((snake curl_game)\<lparr>next_direction := Some DOWN\<rparr>)"
    by (simp add: curl_game_def handle_key_def dir_defs)
  from no_reversal_without_reset [OF play_curl h] play_curl h show ?thesis
    by (simp add: curl_game_def opposite_def game_simps)
qed

text \<open>
  C7. A snake of at most two segments never takes the reset transition, whatever its
  direction and its pending request: \<open>positions[2:]\<close> is empty, so \<open>advance\<close> commits the
  move and leaves the random source alone. (With no segment at all, \<open>positions[0]\<close> raises.)
\<close>

theorem short_snake_never_resets:
  assumes "length (positions s) \<le> 2"
  shows "\<not> collides (update_direction s) \<and>
         (case positions s of
            [] \<Rightarrow> advance s g = Inl IndexError
          | cur # rest \<Rightarrow>
              advance s g =
                Inr (drop_tail (insert_head (new_pos cur (direction (update_direction s)))
                       (update_direction s)), g))"
proof -
  have c: "\<not> collides (update_direction s)"
    using assms by (intro not_collides_short) simp
  show ?thesis
  proof (cases "positions s")
    case Nil
    then show ?thesis using c by (simp add: advance_def move_empty)
  next
    case (Cons cur rest)
    then show ?thesis using c advance_free [OF Cons c] by simp
  qed
qed

text \<open>
  The snake at the right edge.
\<close>

theorem short_snake_never_resets_witness:
  "length (positions at_right_edge) \<le> 2 \<and>
   \<not> collides (update_direction at_right_edge) \<and>
   advance at_right_edge (sconst 0) =
     Inr (at_right_edge\<lparr>positions := [(0, 100), (620, 100)], last_s := Some (600, 100)\<rparr>,
          sconst 0)"
proof -
  have l: "length (positions at_right_edge) \<le> 2" by (simp add: at_right_edge_def)
  from short_snake_never_resets [OF l, of "sconst 0"] l show ?thesis
    by (simp add: at_right_edge_def run_simps)
qed

text \<open>
  C8. \<open>randomize_position\<close> takes no set of occupied cells. The new cell is the pair of
  the next two draws, scaled to the grid, whatever the apple and the snake are; it lies on
  the grid; the apple check of the loop installs it as it is; and every cell of the snake
  that lies on the grid is the new cell for some state of the random source.
\<close>

theorem relocate_ignores_occupied:
  assumes "positions s = position a # rest" and "c \<in> set (positions s)" and "on_grid c"
  shows "randomize_position a g =
           Inr (a\<lparr>position := (int (shd g mod nat GRID_WIDTH) * GRID_SIZE,
                                 int (shd (stl g) mod nat GRID_HEIGHT) * GRID_SIZE)\<rparr>,
                stl (stl g)) \<and>
         on_grid (int (shd g mod nat GRID_WIDTH) * GRID_SIZE,
                  int (shd (stl g) mod nat GRID_HEIGHT) * GRID_SIZE) \<and>
         eat_check s a g =
           Inr \<lparr>snake = grow s,
                apple = a\<lparr>position := (int (shd g mod nat GRID_WIDTH) * GRID_SIZE,
                                        int (shd (stl g) mod nat GRID_HEIGHT) * GRID_SIZE)\<rparr>,
                rng = stl (stl g)\<rparr> \<and>
         map_sum id (position \<circ> apple)
           (eat_check s a (nat (fst c div GRID_SIZE) ## nat (snd c div GRID_SIZE) ## g))
           = Inr c"
proof -
  from assms(3) have x: "20 dvd fst c" "0 \<le> fst c" "fst c < 640"
    and y: "20 dvd snd c" "0 \<le> snd c" "snd c < 480"
    by (simp_all add: on_grid_def screen_defs mod_eq_0_iff_dvd)
  have "nat (fst c div 20) mod 32 = nat (fst c div 20)"
    using x by (simp add: nat_less_iff)
  moreover have "nat (snd c div 20) mod 24 = nat (snd c div 20)"
    using y by (simp add: nat_less_iff)
  moreover have "fst c div 20 * 20 = fst c" "snd c div 20 * 20 = snd c"
    using x(1) y(1) by simp_all
  ultimately have "map_sum id (position \<circ> apple)
      (eat_check s a (nat (fst c div 20) ## nat (snd c div 20) ## g)) = Inr c"
    using x(2) y(2) by (simp add: eat_check_eq [OF assms(1)] pos_imp_zdiv_nonneg_iff)
  then show ?thesis
    using on_grid_draws [of "shd g" "shd (stl g)"]
    by (simp add: randomize_position_eq eat_check_eq [OF assms(1)] screen_defs)
qed

text \<open>
  A snake of two segments: the apple it has eaten comes back under its second segment.
\<close>

theorem relocate_ignores_occupied_witness:
  "positions fed = position \<lparr>position = (340, 240)\<rparr> # [(320, 240)] \<and>
   (320, 240) \<in> set (positions fed) \<and> on_grid (320, 240) \<and>
   map_sum id (position \<circ> fst) (randomize_position \<lparr>position = (340, 240)\<rparr> (sconst 5)) =
     Inr (100, 100) \<and>
   map_sum id (position \<circ> apple)
     (eat_check fed \<lparr>position = (340, 240)\<rparr> (16 ## 12 ## sconst 5)) = Inr (320, 240)"
proof -
  have p: "positions fed = position \<lparr>position = (340, 240)\<rparr> # [(320, 240)]"
    by (simp add: fed_def)
  have c: "(320, 240) \<in> set (positions fed)" by (simp add: fed_def)
  have o: "on_grid (320, 240)" by (simp add: on_grid_def screen_defs)
  from relocate_ignores_occupied [OF p c o, of "sconst 5"] p c o show ?thesis
    by (simp add: screen_defs)
qed

text \<open>
  C9, as stated, fails on a pass that resets. The snake of the spiral game heads up into
  its own tail and holds no request; the press of the down key is ignored, the move
  collides, and the reset draws \<open>LEFT\<close>.
\<close>

theorem opposite_request_counterexample:
  "play (spiral_draws 2) spiral_events = Inr (spiral_game 2) \<and>
   direction (snake (spiral_game 2)) = UP \<and>
   next_direction (snake (spiral_game 2)) = None \<and>
   key_direction K_DOWN = Some (opposite UP) \<and>
   map_sum id (direction \<circ> snake) (tick [KEYDOWN K_DOWN] (spiral_game 2)) = Inr LEFT \<and>
   LEFT \<noteq> UP"
  using play_spiral [of 2] by (simp add: spiral_game_def opposite_def game_simps)

text \<open>
  C9, amended. For a snake with no pending request whose move does not collide, a pass in
  which every key press asks for the opposite of the current direction leaves \<open>direction\<close>
  unchanged.
\<close>

theorem opposite_request_ignored:
  assumes "key_direction k = Some (opposite (direction (snake st)))"
    and "set evs \<subseteq> {KEYDOWN k, OTHER}"
    and "next_direction (snake st) = None"
    and "positions (snake st) = cur # rest"
    and "\<not> collides (snake st)"
  shows "case tick evs st of
           Inl e \<Rightarrow> False
         | Inr st' \<Rightarrow> direction (snake st') = direction (snake st)"
proof -
  have h: "handle_keys evs (snake st) = Inr (snake st)"
    using assms(1,2) by (rule handle_keys_ignored)
  have u: "update_direction (snake st) = snake st"
    using assms(3) by (simp add: update_direction_def)
  have c: "\<not> collides (update_direction (snake st))" using assms(5) u by simp
  let ?s = "drop_tail (insert_head (new_pos cur (direction (snake st))) (snake st))"
  have "positions ?s \<noteq> []"
    using assms(4) by (simp add: drop_tail_def insert_head_def)
  then obtain hd tl where q: "positions ?s = hd # tl" by (cases "positions ?s") auto
  show ?thesis
    using tick_free [OF h assms(4) c] q
    by (simp add: u eat_check_eq [OF q] grow_def)
qed

text \<open>
  The curled snake, heading left, under two presses of the right key.
\<close>

theorem opposite_request_ignored_witness:
  "key_direction K_RIGHT = Some (opposite (direction (snake curl_game))) \<and>
   set [KEYDOWN K_RIGHT, OTHER, KEYDOWN K_RIGHT] \<subseteq> {KEYDOWN K_RIGHT, OTHER} \<and>
   next_direction (snake curl_game) = None \<and>
   positions (snake curl_game) = [(380, 260), (400, 260), (400, 240), (380, 240)] \<and>
   \<not> collides (snake curl_game) \<and>
   map_sum id (direction \<circ> snake)
     (tick [KEYDOWN K_RIGHT, OTHER, KEYDOWN K_RIGHT] curl_game) =
     Inr (direction (snake curl_game))"
proof -
  have k: "key_direction K_RIGHT = Some (opposite (direction (snake curl_game)))"
    by (simp add: curl_game_def opposite_def dir_defs)
  have e: "set [KEYDOWN K_RIGHT, OTHER, KEYDOWN K_RIGHT] \<subseteq> {KEYDOWN K_RIGHT, OTHER}"
    by simp
  have n: "next_direction (snake curl_game) = None" by (simp add: curl_game_def)
  have p: "positions (snake curl_game) = [(380, 260), (400, 260), (400, 240), (380, 240)]"
    by (simp add: curl_game_def)
  have c: "\<not> collides (snake curl_game)" by (simp add: curl_game_def run_simps)
  from opposite_request_ignored [OF k e n p c] k n p c show ?thesis
    by (auto split: sum.splits)
qed

text \<open>
  C10. From the construction of the two objects, under any interleaving of key handling,
  \<open>advance\<close>, \<open>grow\<close>, \<open>reset\<close> and relocations of the apple, nothing but a quit event
  raises, and every segment of the snake and the apple are multiples of \<open>GRID_SIZE\<close> with
  \<open>0 \<le> x < SCREEN_WIDTH\<close> and \<open>0 \<le> y < SCREEN_HEIGHT\<close>.
\<close>

theorem positions_stay_on_grid:
  "case play_ops g xs of
     Inl e \<Rightarrow> e = SystemExit
   | Inr st \<Rightarrow> list_all on_grid (positions (snake st)) \<and> on_grid (position (apple st))"
proof -
  obtain st0 where i: "init_game g = Inr st0" by (simp add: init_game_eq)
  from aligned_apply_ops [OF aligned_init [OF i], of xs] show ?thesis
    by (simp add: play_ops_def i aligned_def split: sum.splits)
qed

text \<open>
  Five operations from the start.
\<close>

theorem positions_stay_on_grid_witness:
  "map_sum id (\<lambda>st. (positions (snake st), position (apple st)))
     (play_ops curl_draws [Advance, Grow, Keys [KEYDOWN K_DOWN], Advance, Relocate]) =
     Inr ([(340, 260), (340, 240)], (360, 240)) \<and>
   list_all on_grid [(340, 260), (340, 240)] \<and> on_grid (360, 240)"
proof -
  have e: "play_ops curl_draws [Advance, Grow, Keys [KEYDOWN K_DOWN], Advance, Relocate] =
      Inr \<lparr>snake = \<lparr>length_s = 2, positions = [(340, 260), (340, 240)], direction = DOWN,
                     next_direction = None, last_s = None\<rparr>,
           apple = \<lparr>position = (360, 240)\<rparr>,
           rng = 19 ## 12 ## 16 ## 12 ## 3 ## 5 ## 7 ## sconst 0\<rparr>"
    by (simp add: play_ops_def curl_draws_def game_simps)
  from positions_stay_on_grid [of curl_draws
      "[Advance, Grow, Keys [KEYDOWN K_DOWN], Advance, Relocate]"]
  show ?thesis by (simp add: e)
qed

end
